theory Spec2Isabelle
  imports Complex_Main "HOL-Library.AList" "HOL-Library.Log_Nat"
begin

section \<open>The dynamic form of \<open>src/app/page.tsx\<close>\<close>

subsection \<open>Data\<close>

text \<open>
  The interface \<open>Field\<close>. Its member \<open>type\<close> is called \<open>ftype\<close> here; \<open>options\<close> is the
  optional member (absent is \<open>None\<close>).
\<close>

record Field =
  name :: string
  ftype :: string
  label :: string
  required :: bool
  options :: "string list option"

text \<open>
  The interface \<open>FormData\<close> is an object indexed by strings. Every value the component
  stores in one is a string (\<open>e.target.value\<close>, or an error message), and
  \<open>Object.keys\<close> enumerates its own keys in insertion order, so an object is an
  association list: \<open>{...o, [k]: v}\<close> is \<open>AList.update k v o\<close> (an existing key keeps its
  place, a new one goes last), \<open>delete o[k]\<close> is \<open>AList.delete k o\<close>, \<open>o[k]\<close> is
  \<open>map_of o k\<close> with \<open>None\<close> for \<open>undefined\<close>, and \<open>{}\<close> is \<open>[]\<close>. Of these two objects
  only own properties are modelled: their keys are names of fields of the catalog, none
  of which is the name of a member of \<open>Object.prototype\<close>.
\<close>

type_synonym FormData = "(string \<times> string) list"

subsection \<open>Numbers\<close>

text \<open>
  A JavaScript number is a double. A finite one is kept as the rational it is, and the
  result of an operation is the double nearest to the exact result, ties to the even
  significand: for a positive \<open>q\<close> between \<open>2 powi e\<close> and \<open>2 powi (e + 1)\<close>, the multiple
  of \<open>2 powi (e - 52)\<close> nearest to \<open>q\<close>. The exponent is not bounded here: the operands of
  \<open>updateProgress\<close> are lengths of arrays, below \<open>2 ^ 32\<close>, so its quotient and its product
  are 0 or lie between \<open>2 powi - 32\<close> and \<open>100 * 2 ^ 32\<close>, where doubles are normal and
  neither overflow nor underflow occurs.
\<close>

definition exponent :: "rat \<Rightarrow> int" where
  "exponent q =
     (case quotient_of q of
        (a, b) \<Rightarrow> let d = bitlen a - bitlen b in if 2 powi d \<le> q then d else d - 1)"

definition round_even :: "rat \<Rightarrow> int" where
  "round_even x =
     (let f = \<lfloor>x\<rfloor>; r = x - of_int f
      in if r < 1 / 2 then f else if 1 / 2 < r then f + 1 else if even f then f else f + 1)"

definition round_53 :: "rat \<Rightarrow> rat" where
  "round_53 q =
     of_int (round_even (q / 2 powi (exponent q - 52))) * 2 powi (exponent q - 52)"

definition nearest_double :: "rat \<Rightarrow> rat" where
  "nearest_double q = (if q = 0 then 0 else if 0 < q then round_53 q else - round_53 (- q))"

text \<open>
  The numbers \<open>progress\<close> can hold. \<open>completedFields / requiredFields\<close> divides two array
  lengths, and a division by zero does not throw: \<open>0 / 0\<close> is \<open>NaN\<close> and \<open>n / 0\<close> is
  \<open>Infinity\<close> for \<open>n > 0\<close>. \<open>* 100\<close> keeps \<open>NaN\<close> and \<open>Infinity\<close>.
\<close>

datatype number = Num rat | Infinity | NaN

definition divide_lengths :: "nat \<Rightarrow> nat \<Rightarrow> number" where
  "divide_lengths c r =
     (if r = 0 then (if c = 0 then NaN else Infinity)
      else Num (nearest_double (of_nat c / of_nat r)))"

fun times_100 :: "number \<Rightarrow> number" where
  "times_100 (Num q) = Num (nearest_double (q * 100))"
| "times_100 Infinity = Infinity"
| "times_100 NaN = NaN"

text \<open>
  Truthiness of \<open>o[k]\<close> for a value that is a string or \<open>undefined\<close>: only a non-empty
  string is truthy.
\<close>

fun truthy :: "string option \<Rightarrow> bool" where
  "truthy None = False"
| "truthy (Some v) = (v \<noteq> [])"

subsection \<open>The state\<close>

text \<open>
  The five \<open>useState\<close> cells of the component \<open>Form\<close>; the cell \<open>fields\<close> is called
  \<open>fields'\<close> here.
\<close>

record Form_state =
  fields' :: "Field list"
  formData :: FormData
  errors :: FormData
  progress :: number
  message :: string

definition initial :: Form_state where
  "initial = \<lparr>fields' = [], formData = [], errors = [], progress = Num 0, message = []\<rparr>"

subsection \<open>The catalog\<close>

definition userInformation :: "Field list" where
  "userInformation =
    [\<lparr>name = ''firstName'', ftype = ''text'', label = ''First Name'', required = True, options = None\<rparr>,
     \<lparr>name = ''lastName'', ftype = ''text'', label = ''Last Name'', required = True, options = None\<rparr>,
     \<lparr>name = ''age'', ftype = ''number'', label = ''Age'', required = False, options = None\<rparr>]"

definition addressInformation :: "Field list" where
  "addressInformation =
    [\<lparr>name = ''street'', ftype = ''text'', label = ''Street'', required = True, options = None\<rparr>,
     \<lparr>name = ''city'', ftype = ''text'', label = ''City'', required = True, options = None\<rparr>,
     \<lparr>name = ''state'', ftype = ''dropdown'', label = ''State'', required = True,
      options = Some [''California'', ''Texas'', ''New York'']\<rparr>,
     \<lparr>name = ''zipCode'', ftype = ''text'', label = ''Zip Code'', required = False, options = None\<rparr>]"

definition paymentInformation :: "Field list" where
  "paymentInformation =
    [\<lparr>name = ''cardNumber'', ftype = ''text'', label = ''Card Number'', required = True, options = None\<rparr>,
     \<lparr>name = ''expiryDate'', ftype = ''date'', label = ''Expiry Date'', required = True, options = None\<rparr>,
     \<lparr>name = ''cvv'', ftype = ''password'', label = ''CVV'', required = True, options = None\<rparr>,
     \<lparr>name = ''cardholderName'', ftype = ''text'', label = ''Cardholder Name'', required = True,
      options = None\<rparr>]"

text \<open>
  What \<open>apiResponses[formType]\<close> can be for a string \<open>formType\<close>. \<open>apiResponses\<close> is an
  object literal, so a key that is not its own is looked up in \<open>Object.prototype\<close>:
  \<open>constructor\<close> is the function \<open>Object\<close>, \<open>__proto__\<close> is \<open>Object.prototype\<close> itself, and
  the other members are functions. All of them are truthy; every other string gives
  \<open>undefined\<close>.
\<close>

datatype property = Undefined | Entry "Field list" | Constructor | Inherited

definition inherited_names :: "string list" where
  "inherited_names =
     [''__defineGetter__'', ''__defineSetter__'', ''hasOwnProperty'', ''__lookupGetter__'',
      ''__lookupSetter__'', ''isPrototypeOf'', ''propertyIsEnumerable'', ''toString'',
      ''valueOf'', ''__proto__'', ''toLocaleString'']"

definition apiResponses :: "string \<Rightarrow> property" where
  "apiResponses formType =
     (if formType = ''userInformation'' then Entry userInformation
      else if formType = ''addressInformation'' then Entry addressInformation
      else if formType = ''paymentInformation'' then Entry paymentInformation
      else if formType = ''constructor'' then Constructor
      else if formType \<in> set inherited_names then Inherited
      else Undefined)"

text \<open>The type \<open>FormType\<close>: the three keys of the catalog.\<close>

definition formTypes :: "string list" where
  "formTypes = [''userInformation'', ''addressInformation'', ''paymentInformation'']"

subsection \<open>The event handlers\<close>

text \<open>
  A handler is a closure of one render: \<open>fields\<close>, \<open>formData\<close>, \<open>errors\<close>, \<open>progress\<close> and
  \<open>message\<close> are constants of that render, and a call of a setter does not change them,
  it only gives the cell its value for the next render. So every handler is a function
  from the state \<open>s\<close> of the render it was created in to the state of the next render, and
  every read inside it is a read of \<open>s\<close>.
\<close>

text \<open>
  \<open>setFields(apiResponses[formType])\<close> for a truthy argument. A setter of \<open>useState\<close>
  takes a function as an updater and stores what it returns for the cell's value (as
  \<open>handleSubmit\<close> does with \<open>setErrors\<close>); any other argument is stored itself. An array of
  the catalog is stored. \<open>Object\<close>, called on the array \<open>fields\<close>, returns it, so
  \<open>constructor\<close> leaves the cell as it is. With every other inherited member the cell
  does not get an array of fields: \<open>__proto__\<close> stores \<open>Object.prototype\<close>, \<open>toString\<close>
  returns a string, and the other functions throw, since they are called without a
  receiver. No state of this model follows then.
\<close>

datatype failure = NotAFieldList

fun setFields :: "property \<Rightarrow> Field list \<Rightarrow> failure + Field list" where
  "setFields (Entry fs) prev = Inr fs"
| "setFields Constructor prev = Inr prev"
| "setFields Inherited prev = Inl NotAFieldList"
| "setFields Undefined prev = Inl NotAFieldList"

text \<open>
  \<open>handleFormTypeChange\<close>: \<open>setMessage('')\<close> and \<open>setProgress(0)\<close> come before the test
  \<open>formType && apiResponses[formType]\<close>, in which only the empty string and \<open>undefined\<close>
  are falsy (an array is truthy, also the empty one).
\<close>

definition handleFormTypeChange :: "Form_state \<Rightarrow> string \<Rightarrow> failure + Form_state" where
  "handleFormTypeChange s formType =
     (let s1 = s\<lparr>message := [], progress := Num 0\<rparr>
      in if formType \<noteq> [] \<and> apiResponses formType \<noteq> Undefined
         then (case setFields (apiResponses formType) (fields' s) of
                 Inl e \<Rightarrow> Inl e
               | Inr fs \<Rightarrow> Inr (s1\<lparr>fields' := fs, formData := [], errors := []\<rparr>))
         else Inr s1)"

text \<open>\<open>fields.filter((field) => field.required).length\<close>\<close>

definition requiredFields :: "Field list \<Rightarrow> nat" where
  "requiredFields fs = length (filter required fs)"

text \<open>\<open>Object.keys(formData).filter((key) => !newErrors[key]).length\<close>\<close>

definition completedFields :: "FormData \<Rightarrow> FormData \<Rightarrow> nat" where
  "completedFields fd newErrors =
     length (filter (\<lambda>key. \<not> truthy (map_of newErrors key)) (map fst fd))"

text \<open>
  \<open>updateProgress\<close> reads \<open>fields\<close> and \<open>formData\<close> of the render and the errors it is
  given.
\<close>

definition updateProgress :: "Form_state \<Rightarrow> FormData \<Rightarrow> Form_state" where
  "updateProgress s newErrors =
     s\<lparr>progress :=
         times_100 (divide_lengths (completedFields (formData s) newErrors)
                                   (requiredFields (fields' s)))\<rparr>"

text \<open>\<open>fields.find((field) => field.name === name)\<close>: the first field of that name.\<close>

definition find_field :: "Field list \<Rightarrow> string \<Rightarrow> Field option" where
  "find_field fs n = find (\<lambda>field. name field = n) fs"

text \<open>The errors \<open>validateField\<close> builds from those of the render.\<close>

definition newErrors_of :: "Form_state \<Rightarrow> string \<Rightarrow> string \<Rightarrow> FormData" where
  "newErrors_of s n v =
     (case find_field (fields' s) n of
        Some field \<Rightarrow>
          if required field \<and> v = []
          then AList.update n (label field @ '' is required'') (errors s)
          else AList.delete n (errors s)
      | None \<Rightarrow> AList.delete n (errors s))"

definition validateField :: "Form_state \<Rightarrow> string \<Rightarrow> string \<Rightarrow> Form_state" where
  "validateField s n v =
     (let newErrors = newErrors_of s n v
      in (updateProgress s newErrors)\<lparr>errors := newErrors\<rparr>)"

text \<open>
  \<open>handleInputChange\<close>: \<open>setFormData\<close> of the render's \<open>formData\<close> with the new entry;
  \<open>validateField\<close>, called after it, still reads the render's \<open>formData\<close>.
\<close>

definition handleInputChange :: "Form_state \<Rightarrow> string \<Rightarrow> string \<Rightarrow> Form_state" where
  "handleInputChange s n v =
     (validateField s n v)\<lparr>formData := AList.update n v (formData s)\<rparr>"

text \<open>
  The \<open>forEach\<close> of \<open>handleSubmit\<close>: \<open>isValid\<close> and the queue of functional updates of
  \<open>errors\<close>, applied in order to the pending value.
\<close>

fun submitLoop :: "Field list \<Rightarrow> FormData \<Rightarrow> bool \<times> FormData \<Rightarrow> bool \<times> FormData" where
  "submitLoop [] fd (isValid, prev) = (isValid, prev)"
| "submitLoop (field # rest) fd (isValid, prev) =
     (if required field \<and> \<not> truthy (map_of fd (name field))
      then submitLoop rest fd (False, AList.update (name field) (label field @ '' is required'') prev)
      else submitLoop rest fd (isValid, prev))"

definition handleSubmit :: "Form_state \<Rightarrow> Form_state" where
  "handleSubmit s =
     (case submitLoop (fields' s) (formData s) (True, errors s) of
        (isValid, errs) \<Rightarrow>
          if isValid
          then s\<lparr>message := ''Form submitted successfully!'', formData := [], errors := []\<rparr>
          else s\<lparr>errors := errs, message := ''Please fill out all required fields.''\<rparr>)"

subsection \<open>Reachable states and the words of the specification\<close>

text \<open>
  The states the component can be in: the initial one, and those the three handlers lead
  to. An input that calls \<open>handleInputChange\<close> is rendered from a field of \<open>fields\<close>, so
  its name is the name of one of them.
\<close>

inductive reachable :: "Form_state \<Rightarrow> bool" where
  reachable_initial: "reachable initial"
| reachable_select:
    "reachable s \<Longrightarrow> handleFormTypeChange s formType = Inr s' \<Longrightarrow> reachable s'"
| reachable_input:
    "reachable s \<Longrightarrow> n \<in> set (map name (fields' s)) \<Longrightarrow> reachable (handleInputChange s n v)"
| reachable_submit: "reachable s \<Longrightarrow> reachable (handleSubmit s)"

text \<open>
  The specification's condition of a successful submission: every required field of the
  active field-set has a non-empty entry in the form values.
\<close>

definition all_required_present :: "Form_state \<Rightarrow> bool" where
  "all_required_present s =
     (\<forall>field \<in> set (fields' s). required field \<longrightarrow>
        (\<exists>v. map_of (formData s) (name field) = Some v \<and> v \<noteq> []))"

text \<open>
  The reachable states whose progress is not left over from a successful submission: the
  initial state, the states a selection or an input change leads to, and those that
  failed submissions lead to from these. (A successful submission empties the form values
  and keeps the progress.)
\<close>

inductive recomputed :: "Form_state \<Rightarrow> bool" where
  recomputed_initial: "recomputed initial"
| recomputed_select:
    "reachable s \<Longrightarrow> handleFormTypeChange s formType = Inr s' \<Longrightarrow> recomputed s'"
| recomputed_input:
    "reachable s \<Longrightarrow> n \<in> set (map name (fields' s)) \<Longrightarrow> recomputed (handleInputChange s n v)"
| recomputed_failed:
    "recomputed s \<Longrightarrow> \<not> all_required_present s \<Longrightarrow> recomputed (handleSubmit s)"

text \<open>
  The specification's formula of the progress, in exact arithmetic: 100 times the count
  of required fields with no entry in the errors, divided by the count of required fields
  (for a field list that has a required field).
\<close>

definition spec_progress :: "Field list \<Rightarrow> FormData \<Rightarrow> rat" where
  "spec_progress fs errs =
     100 * of_nat (length (filter (\<lambda>field. required field \<and> map_of errs (name field) = None) fs))
       / of_nat (length (filter required fs))"

text \<open>
  The formula of the progress with the count of the required fields that have an entry in
  the form values and no entry in the errors, computed as the code computes: the count
  divided by the count of required fields, then multiplied by 100, in doubles.
\<close>

definition entered_progress :: "Field list \<Rightarrow> FormData \<Rightarrow> FormData \<Rightarrow> number" where
  "entered_progress fs fd errs =
     times_100 (divide_lengths
       (length (filter (\<lambda>field. required field \<and> map_of fd (name field) \<noteq> None \<and>
                                 map_of errs (name field) = None) fs))
       (length (filter required fs)))"

text \<open>The finite value of \<open>(c / r) * 100\<close> in doubles, for \<open>r\<close> not 0.\<close>

definition percent :: "nat \<Rightarrow> nat \<Rightarrow> rat" where
  "percent c r = nearest_double (nearest_double (of_nat c / of_nat r) * 100)"

text \<open>The states of the specification's first scenario, and one more change after it.\<close>

definition user_selected :: Form_state where
  "user_selected = projr (handleFormTypeChange initial ''userInformation'')"

definition first_name_set :: Form_state where
  "first_name_set = handleInputChange user_selected ''firstName'' ''Ann''"

definition last_name_set :: Form_state where
  "last_name_set = handleInputChange first_name_set ''lastName'' ''Lee''"

definition age_set :: Form_state where
  "age_set = handleInputChange last_name_set ''age'' ''30''"

text \<open>The state of the second scenario.\<close>

definition payment_selected :: Form_state where
  "payment_selected = projr (handleFormTypeChange initial ''paymentInformation'')"

text \<open>
  A run on the address form: street, city and state are entered, then the street is
  emptied.
\<close>

definition address_selected :: Form_state where
  "address_selected = projr (handleFormTypeChange initial ''addressInformation'')"

definition street_set :: Form_state where
  "street_set = handleInputChange address_selected ''street'' ''1 Main St''"

definition city_set :: Form_state where
  "city_set = handleInputChange street_set ''city'' ''Austin''"

definition state_set :: Form_state where
  "state_set = handleInputChange city_set ''state'' ''Texas''"

definition street_emptied :: Form_state where
  "street_emptied = handleInputChange state_set ''street'' []"

section \<open>Lemmas\<close>

subsection \<open>Rounding to the nearest double\<close>

lemma round_even_of_int [simp]: "round_even (of_int n) = n"
  by (simp add: round_even_def)

lemma round_even_bounds: "\<lfloor>x\<rfloor> \<le> round_even x \<and> round_even x \<le> \<lfloor>x\<rfloor> + 1"
  by (simp add: round_even_def Let_def)

lemma round_even_mono:
  assumes "x \<le> y"
  shows "round_even x \<le> round_even y"
proof (cases "\<lfloor>x\<rfloor> = \<lfloor>y\<rfloor>")
  case True
  from assms have "x - of_int \<lfloor>x\<rfloor> \<le> y - of_int \<lfloor>x\<rfloor>"
    by simp
  with True show ?thesis
    by (auto simp: round_even_def Let_def)
next
  case False
  with assms have "\<lfloor>x\<rfloor> < \<lfloor>y\<rfloor>"
    using floor_mono [OF assms] by linarith
  with round_even_bounds [of x] round_even_bounds [of y] show ?thesis
    by linarith
qed

lemma bitlen_powi:
  assumes "0 < x"
  shows "(2::rat) powi (bitlen x - 1) \<le> of_int x \<and> of_int x < (2::rat) powi bitlen x"
proof -
  from assms have "1 \<le> bitlen x"
    using bitlen_eq_zero_iff [of x] bitlen_nonneg [of x] by linarith
  moreover from bitlen_bounds [OF assms]
  have "(of_int (2 ^ nat (bitlen x - 1)) :: rat) \<le> of_int x"
    and "(of_int x :: rat) < of_int (2 ^ nat (bitlen x))"
    unfolding of_int_le_iff of_int_less_iff by simp_all
  ultimately show ?thesis
    by (simp add: power_int_def)
qed

lemma exponent_bounds:
  assumes "0 < q"
  shows "2 powi exponent q \<le> q \<and> q < 2 powi (exponent q + 1)"
proof -
  obtain a b where ab: "quotient_of q = (a, b)"
    by (cases "quotient_of q")
  then have b: "0 < b" and q: "q = of_int a / of_int b"
    by (auto dest: quotient_of_denom_pos quotient_of_div)
  with assms have a: "0 < a"
    by (simp add: zero_less_divide_iff)
  define d where "d = bitlen a - bitlen b"
  have low: "2 powi (d - 1) \<le> q"
  proof -
    have "(2::rat) powi (d - 1) = 2 powi (bitlen a - 1) / 2 powi bitlen b"
      by (simp add: d_def power_int_diff)
    also have "\<dots> \<le> of_int a / of_int b"
      using bitlen_powi [OF a] bitlen_powi [OF b] a b by (intro frac_le) auto
    finally show ?thesis by (simp add: q)
  qed
  have high: "q < 2 powi (d + 1)"
  proof -
    have "of_int a / of_int b < (2::rat) powi bitlen a / 2 powi (bitlen b - 1)"
      using bitlen_powi [OF a] bitlen_powi [OF b] a b by (intro frac_less) auto
    also have "\<dots> = 2 powi (d + 1)"
      by (simp add: d_def power_int_diff power_int_add)
    finally show ?thesis by (simp add: q)
  qed
  have "exponent q = (if 2 powi d \<le> q then d else d - 1)"
    by (simp add: exponent_def ab d_def)
  with low high show ?thesis
    by (auto simp: not_le)
qed

lemma exponent_unique:
  assumes "2 powi e \<le> q" and "q < 2 powi (e + 1)"
  shows "exponent q = e"
proof -
  have "(0::rat) < 2 powi e"
    by simp
  with assms(1) have pos: "0 < q"
    by linarith
  note b = exponent_bounds [OF pos]
  have "\<not> exponent q < e"
  proof
    assume "exponent q < e"
    then have "(2::rat) powi (exponent q + 1) \<le> 2 powi e"
      by (intro power_int_increasing) auto
    with b assms(1) show False by linarith
  qed
  moreover have "\<not> e < exponent q"
  proof
    assume "e < exponent q"
    then have "(2::rat) powi (e + 1) \<le> 2 powi exponent q"
      by (intro power_int_increasing) auto
    with b assms(2) show False by linarith
  qed
  ultimately show ?thesis by linarith
qed

lemma round_53_eq:
  assumes "2 powi e \<le> q" and "q < 2 powi (e + 1)"
  shows "round_53 q = of_int (round_even (q / 2 powi (e - 52))) * 2 powi (e - 52)"
  by (simp add: round_53_def exponent_unique [OF assms])

lemma round_53_binade:
  assumes "2 powi e \<le> q" and "q < 2 powi (e + 1)"
  shows "2 powi e \<le> round_53 q \<and> round_53 q \<le> 2 powi (e + 1)"
proof -
  let ?u = "(2::rat) powi (e - 52)"
  have u: "0 < ?u" by simp
  have low: "(2::rat) powi e = of_int (2 ^ 52) * ?u"
    by (simp add: power_int_diff)
  have high: "(2::rat) powi (e + 1) = of_int (2 ^ 53) * ?u"
    by (simp add: power_int_diff power_int_add)
  from assms(1) u have "of_int (2 ^ 52) \<le> q / ?u"
    unfolding low by (simp add: pos_le_divide_eq)
  from round_even_mono [OF this] have 1: "2 ^ 52 \<le> round_even (q / ?u)"
    by (simp only: round_even_of_int)
  from assms(2) u have "q / ?u \<le> of_int (2 ^ 53)"
    unfolding high by (simp add: pos_divide_le_eq)
  from round_even_mono [OF this] have 2: "round_even (q / ?u) \<le> 2 ^ 53"
    by (simp only: round_even_of_int)
  from 1 have "of_int (2 ^ 52) * ?u \<le> of_int (round_even (q / ?u)) * ?u"
    using u by (intro mult_right_mono) (simp_all only: of_int_le_iff less_imp_le)
  moreover from 2 have "of_int (round_even (q / ?u)) * ?u \<le> of_int (2 ^ 53) * ?u"
    using u by (intro mult_right_mono) (simp_all only: of_int_le_iff less_imp_le)
  ultimately show ?thesis
    unfolding round_53_eq [OF assms] low high by simp
qed

lemma round_53_mono:
  assumes "0 < x" and "x \<le> y"
  shows "round_53 x \<le> round_53 y"
proof -
  from assms have y: "0 < y" by simp
  note bx = exponent_bounds [OF assms(1)] and bnd = exponent_bounds [OF y]
  have "\<not> exponent y < exponent x"
  proof
    assume "exponent y < exponent x"
    then have "(2::rat) powi (exponent y + 1) \<le> 2 powi exponent x"
      by (intro power_int_increasing) auto
    with bx bnd assms(2) show False by linarith
  qed
  then consider "exponent x = exponent y" | "exponent x < exponent y"
    by linarith
  then show ?thesis
  proof cases
    case 1
    let ?u = "(2::rat) powi (exponent y - 52)"
    have u: "0 < ?u" by simp
    with assms(2) have "x / ?u \<le> y / ?u"
      by (simp add: divide_right_mono)
    from round_even_mono [OF this]
    have "of_int (round_even (x / ?u)) * ?u \<le> of_int (round_even (y / ?u)) * ?u"
      using u by (intro mult_right_mono) (simp_all only: of_int_le_iff less_imp_le)
    with 1 show ?thesis
      by (simp add: round_53_def)
  next
    case 2
    then have "(2::rat) powi (exponent x + 1) \<le> 2 powi exponent y"
      by (intro power_int_increasing) auto
    with round_53_binade [of "exponent x" x] round_53_binade [of "exponent y" y] bx bnd
    show ?thesis by linarith
  qed
qed

lemma round_53_pos:
  assumes "0 < q"
  shows "0 < round_53 q"
proof -
  from exponent_bounds [OF assms] have "2 powi exponent q \<le> round_53 q"
    using round_53_binade [of "exponent q" q] by simp
  moreover have "(0::rat) < 2 powi exponent q"
    by simp
  ultimately show ?thesis by linarith
qed

lemma nearest_double_nonneg: "0 \<le> q \<Longrightarrow> 0 \<le> nearest_double q"
  using round_53_pos [of q] by (auto simp: nearest_double_def less_le)

lemma nearest_double_mono:
  assumes "0 \<le> x" and "x \<le> y"
  shows "nearest_double x \<le> nearest_double y"
proof (cases "x = 0")
  case True
  with assms nearest_double_nonneg [of y] show ?thesis
    by (simp add: nearest_double_def)
next
  case False
  with assms have "0 < x" "0 < y"
    by simp_all
  with round_53_mono [OF \<open>0 < x\<close> assms(2)] show ?thesis
    by (simp add: nearest_double_def)
qed

text \<open>A number with a significand below \<open>2 ^ 53\<close> is a double.\<close>

lemma nearest_double_exact:
  assumes "0 < m" and "m < 2 ^ 53"
  shows "nearest_double (of_int m * 2 powi k) = of_int m * 2 powi k"
proof -
  let ?q = "of_int m * (2::rat) powi k"
  have pos: "0 < ?q"
    using assms(1) by simp
  define e where "e = exponent ?q"
  note b = exponent_bounds [OF pos, folded e_def]
  have "\<not> 52 + k < e"
  proof
    assume "52 + k < e"
    then have "(2::rat) powi (53 + k) \<le> 2 powi e"
      by (intro power_int_increasing) auto
    moreover from assms(2) have "of_int m < (of_int (2 ^ 53) :: rat)"
      unfolding of_int_less_iff .
    then have "?q < of_int (2 ^ 53) * 2 powi k"
      by (intro mult_strict_right_mono) simp_all
    then have "?q < 2 powi (53 + k)"
      by (simp add: power_int_add)
    ultimately show False using b by linarith
  qed
  then have ge: "0 \<le> k - (e - 52)"
    by linarith
  have "?q / 2 powi (e - 52) = of_int m * 2 powi (k - (e - 52))"
    by (simp add: power_int_diff)
  also from ge have "\<dots> = of_int (m * 2 ^ nat (k - (e - 52)))"
    by (simp add: power_int_def)
  finally have "round_even (?q / 2 powi (e - 52)) = m * 2 ^ nat (k - (e - 52))"
    by (simp only: round_even_of_int)
  then have "round_53 ?q = of_int (m * 2 ^ nat (k - (e - 52))) * 2 powi (e - 52)"
    by (simp add: round_53_def e_def)
  also from ge have "\<dots> = of_int m * 2 powi (k - (e - 52)) * 2 powi (e - 52)"
    by (simp add: power_int_def)
  also have "\<dots> = ?q"
    by (simp add: power_int_diff)
  finally show ?thesis
    using pos by (simp add: nearest_double_def)
qed

lemma nearest_double_of_nat:
  assumes "n < 2 ^ 53"
  shows "nearest_double (of_nat n) = of_nat n"
proof (cases "n = 0")
  case True
  then show ?thesis by (simp add: nearest_double_def)
next
  case False
  with assms nearest_double_exact [of "int n" 0] show ?thesis
    by simp
qed

lemma nearest_double_0 [simp]: "nearest_double 0 = 0"
  by (simp add: nearest_double_def)

lemma nearest_double_1 [simp]: "nearest_double 1 = 1"
  using nearest_double_of_nat [of 1] by simp

lemma nearest_double_half [simp]: "nearest_double (1 / 2) = 1 / 2"
  using nearest_double_exact [of 1 "- 1"] by simp

lemma nearest_double_three_halves [simp]: "nearest_double (3 / 2) = 3 / 2"
  using nearest_double_exact [of 3 "- 1"] by simp

lemma nearest_double_50 [simp]: "nearest_double 50 = 50"
  using nearest_double_of_nat [of 50] by simp

lemma nearest_double_100 [simp]: "nearest_double 100 = 100"
  using nearest_double_of_nat [of 100] by simp

lemma nearest_double_150 [simp]: "nearest_double 150 = 150"
  using nearest_double_of_nat [of 150] by simp

lemma nearest_double_third: "nearest_double (1 / 3) = 6004799503160661 / 2 ^ 54"
  by code_simp

lemma nearest_double_two_thirds: "nearest_double (2 / 3) = 6004799503160661 / 2 ^ 53"
  by code_simp

lemma nearest_double_third_100:
  "nearest_double (6004799503160661 / 2 ^ 54 * 100) = 2345624805922133 / 2 ^ 46"
  by code_simp

lemma nearest_double_two_thirds_100:
  "nearest_double (6004799503160661 / 2 ^ 53 * 100) = 2345624805922133 / 2 ^ 45"
  by code_simp

subsection \<open>The percentage\<close>

lemma times_100_divide_lengths:
  assumes "0 < r"
  shows "times_100 (divide_lengths c r) = Num (percent c r)"
  using assms by (simp add: divide_lengths_def percent_def)

lemma percent_nonneg: "0 \<le> percent c r"
  unfolding percent_def by (intro nearest_double_nonneg mult_nonneg_nonneg) simp_all

lemma percent_mono:
  assumes "c \<le> d"
  shows "percent c r \<le> percent d r"
proof -
  from assms have "(of_nat c :: rat) / of_nat r \<le> of_nat d / of_nat r"
    by (simp add: divide_right_mono)
  moreover have "(0::rat) \<le> of_nat c / of_nat r"
    by simp
  ultimately
  have "nearest_double (of_nat c / of_nat r) \<le> nearest_double (of_nat d / of_nat r)"
    by (rule nearest_double_mono [rotated])
  then have "nearest_double (of_nat c / of_nat r) * 100 \<le> nearest_double (of_nat d / of_nat r) * 100"
    by simp
  moreover have "0 \<le> nearest_double (of_nat c / of_nat r) * 100"
    by (intro mult_nonneg_nonneg nearest_double_nonneg) simp_all
  ultimately show ?thesis
    unfolding percent_def by (rule nearest_double_mono [rotated])
qed

lemma percent_0 [simp]: "percent 0 r = 0"
  by (simp add: percent_def)

lemma percent_le_100:
  assumes "c \<le> r" and "0 < r"
  shows "percent c r \<le> 100"
proof -
  from assms have "percent c r \<le> percent r r"
    by (intro percent_mono)
  also from assms(2) have "percent r r = 100"
    by (simp add: percent_def)
  finally show ?thesis .
qed

subsection \<open>What each handler writes\<close>

lemma handleFormTypeChange_known:
  assumes "apiResponses formType = Entry fs"
  shows "handleFormTypeChange s formType =
           Inr \<lparr>fields' = fs, formData = [], errors = [], progress = Num 0, message = []\<rparr>"
proof -
  from assms have "formType \<noteq> []"
    by (auto simp: apiResponses_def inherited_names_def)
  with assms show ?thesis
    by (simp add: handleFormTypeChange_def)
qed

lemma handleFormTypeChange_unknown:
  assumes "formType = [] \<or> apiResponses formType = Undefined"
  shows "handleFormTypeChange s formType = Inr (s\<lparr>message := [], progress := Num 0\<rparr>)"
  using assms by (auto simp: handleFormTypeChange_def)

lemma handleFormTypeChange_constructor:
  assumes "apiResponses formType = Constructor"
  shows "handleFormTypeChange s formType =
           Inr \<lparr>fields' = fields' s, formData = [], errors = [], progress = Num 0, message = []\<rparr>"
proof -
  from assms have "formType \<noteq> []"
    by (auto simp: apiResponses_def inherited_names_def)
  with assms show ?thesis
    by (simp add: handleFormTypeChange_def)
qed

lemma handleFormTypeChange_cases:
  assumes "handleFormTypeChange s formType = Inr s'"
  shows "s' = s\<lparr>message := [], progress := Num 0\<rparr> \<or>
         (\<exists>fs. apiResponses formType = Entry fs \<and>
            s' = \<lparr>fields' = fs, formData = [], errors = [], progress = Num 0, message = []\<rparr>) \<or>
         s' = \<lparr>fields' = fields' s, formData = [], errors = [], progress = Num 0, message = []\<rparr>"
proof (cases "formType = []")
  case True
  with assms show ?thesis
    by (simp add: handleFormTypeChange_unknown)
next
  case False
  show ?thesis
  proof (cases "apiResponses formType")
    case Undefined
    with assms show ?thesis
      by (simp add: handleFormTypeChange_unknown)
  next
    case (Entry fs)
    with assms show ?thesis
      by (simp add: handleFormTypeChange_known)
  next
    case Constructor
    with assms show ?thesis
      by (simp add: handleFormTypeChange_constructor)
  next
    case Inherited
    with assms False show ?thesis
      by (simp add: handleFormTypeChange_def)
  qed
qed

lemma handleFormTypeChange_progress:
  assumes "handleFormTypeChange s formType = Inr s'"
  shows "progress s' = Num 0"
  using handleFormTypeChange_cases [OF assms] by auto

lemma handleFormTypeChange_cells:
  assumes "handleFormTypeChange s formType = Inr s'"
  shows "(fields' s' = fields' s \<and> formData s' = formData s \<and> errors s' = errors s) \<or>
         (formData s' = [] \<and> errors s' = [] \<and>
            (fields' s' = fields' s \<or> apiResponses formType = Entry (fields' s')))"
  using handleFormTypeChange_cases [OF assms] by auto

lemma handleInputChange_fields [simp]: "fields' (handleInputChange s n v) = fields' s"
  by (simp add: handleInputChange_def validateField_def updateProgress_def Let_def)

lemma handleInputChange_formData [simp]:
  "formData (handleInputChange s n v) = AList.update n v (formData s)"
  by (simp add: handleInputChange_def)

lemma handleInputChange_errors [simp]:
  "errors (handleInputChange s n v) = newErrors_of s n v"
  by (simp add: handleInputChange_def validateField_def Let_def)

lemma handleInputChange_progress:
  "progress (handleInputChange s n v) =
     times_100 (divide_lengths (completedFields (formData s) (newErrors_of s n v))
                               (requiredFields (fields' s)))"
  by (simp add: handleInputChange_def validateField_def updateProgress_def Let_def)

lemma handleInputChange_message [simp]: "message (handleInputChange s n v) = message s"
  by (simp add: handleInputChange_def validateField_def updateProgress_def Let_def)

lemma submitLoop_isValid:
  "fst (submitLoop fs fd (b, e)) =
     (b \<and> (\<forall>field \<in> set fs. \<not> (required field \<and> \<not> truthy (map_of fd (name field)))))"
  by (induction fs arbitrary: b e) auto

lemma keys_update: "fst ` set (AList.update k v al) = insert k (fst ` set al)"
  by (induction al) auto

lemma keys_delete: "fst ` set (AList.delete k al) = fst ` set al - {k}"
  by (induction al) auto

lemma submitLoop_keys:
  "fst ` set (snd (submitLoop fs fd (b, e))) =
     fst ` set e \<union> {name field |field. field \<in> set fs \<and> required field \<and> \<not> truthy (map_of fd (name field))}"
proof (induction fs arbitrary: b e)
  case Nil
  show ?case by simp
next
  case (Cons field rest)
  show ?case
    by (auto simp: Cons.IH keys_update)
qed

lemma truthy_iff: "truthy x \<longleftrightarrow> (\<exists>v. x = Some v \<and> v \<noteq> [])"
  by (cases x) auto

lemma all_required_present_iff:
  "all_required_present s \<longleftrightarrow> fst (submitLoop (fields' s) (formData s) (True, errors s))"
  by (simp add: all_required_present_def submitLoop_isValid truthy_iff)

lemma handleSubmit_valid:
  assumes "all_required_present s"
  shows "handleSubmit s =
           s\<lparr>message := ''Form submitted successfully!'', formData := [], errors := []\<rparr>"
proof -
  obtain b e where be: "submitLoop (fields' s) (formData s) (True, errors s) = (b, e)"
    by (cases "submitLoop (fields' s) (formData s) (True, errors s)")
  with assms have b
    by (simp add: all_required_present_iff)
  with be show ?thesis
    by (simp add: handleSubmit_def)
qed

lemma handleSubmit_invalid:
  assumes "\<not> all_required_present s"
  shows "handleSubmit s =
           s\<lparr>errors := snd (submitLoop (fields' s) (formData s) (True, errors s)),
             message := ''Please fill out all required fields.''\<rparr>"
proof -
  obtain b e where be: "submitLoop (fields' s) (formData s) (True, errors s) = (b, e)"
    by (cases "submitLoop (fields' s) (formData s) (True, errors s)")
  with assms have "\<not> b"
    by (simp add: all_required_present_iff)
  with be show ?thesis
    by (simp add: handleSubmit_def)
qed

lemma submitLoop_keeps:
  assumes "map_of e k = Some v"
  shows "map_of (snd (submitLoop fs fd (b, e))) k = Some v \<or>
         (\<exists>g \<in> set fs. name g = k \<and>
            map_of (snd (submitLoop fs fd (b, e))) k = Some (label g @ '' is required''))"
  using assms
proof (induction fs arbitrary: b e v)
  case Nil
  then show ?case by simp
next
  case (Cons field rest)
  show ?case
  proof (cases "required field \<and> \<not> truthy (map_of fd (name field))")
    case False
    with Cons.IH [OF Cons.prems, of b] show ?thesis
      by auto
  next
    case miss: True
    let ?e = "AList.update (name field) (label field @ '' is required'') e"
    show ?thesis
    proof (cases "name field = k")
      case True
      then have "map_of ?e k = Some (label field @ '' is required'')"
        by (simp add: update_conv')
      from Cons.IH [OF this, of False] miss True show ?thesis
        by auto
    next
      case False
      with Cons.prems have "map_of ?e k = Some v"
        by (simp add: update_conv')
      from Cons.IH [OF this, of False] miss show ?thesis
        by auto
    qed
  qed
qed

lemma submitLoop_entry:
  assumes "field \<in> set fs" and "required field" and "\<not> truthy (map_of fd (name field))"
  shows "\<exists>g \<in> set fs. name g = name field \<and>
           map_of (snd (submitLoop fs fd (b, e))) (name field) = Some (label g @ '' is required'')"
  using assms(1)
proof (induction fs arbitrary: b e)
  case Nil
  then show ?case by simp
next
  case (Cons f rest)
  show ?case
  proof (cases "f = field")
    case True
    let ?e = "AList.update (name field) (label field @ '' is required'') e"
    have "map_of ?e (name field) = Some (label field @ '' is required'')"
      by (simp add: update_conv')
    from submitLoop_keeps [OF this, of rest fd False] True assms(2,3) show ?thesis
      by auto
  next
    case False
    with Cons.prems have "field \<in> set rest"
      by simp
    from Cons.IH [OF this] show ?thesis
      by (cases "required f \<and> \<not> truthy (map_of fd (name f))") auto
  qed
qed

lemma submitLoop_values:
  assumes "\<And>k v. map_of e k = Some v \<Longrightarrow> v \<noteq> []"
    and "map_of (snd (submitLoop fs fd (b, e))) k = Some v"
  shows "v \<noteq> []"
  using assms
proof (induction fs arbitrary: b e)
  case Nil
  then show ?case by auto
next
  case (Cons f rest)
  show ?case
  proof (cases "required f \<and> \<not> truthy (map_of fd (name f))")
    case True
    let ?e = "AList.update (name f) (label f @ '' is required'') e"
    have "\<And>k v. map_of ?e k = Some v \<Longrightarrow> v \<noteq> []"
      using Cons.prems(1) by (auto simp: update_conv' split: if_splits)
    moreover from True Cons.prems(2)
    have "map_of (snd (submitLoop rest fd (False, ?e))) k = Some v"
      by simp
    ultimately show ?thesis
      by (rule Cons.IH)
  next
    case False
    with Cons.prems(2) have "map_of (snd (submitLoop rest fd (b, e))) k = Some v"
      by auto
    with Cons.prems(1) show ?thesis
      by (rule Cons.IH)
  qed
qed

lemma newErrors_of_keys: "fst ` set (newErrors_of s n v) \<subseteq> insert n (fst ` set (errors s))"
  by (auto simp: newErrors_of_def keys_update keys_delete split: option.splits)

lemma newErrors_of_values:
  assumes "\<And>k v. map_of (errors s) k = Some v \<Longrightarrow> v \<noteq> []"
    and "map_of (newErrors_of s n w) k = Some v"
  shows "v \<noteq> []"
  using assms
  by (auto simp: newErrors_of_def update_conv' delete_conv' split: option.splits if_splits)

lemma newErrors_of_other:
  assumes "k \<noteq> n"
  shows "map_of (newErrors_of s n v) k = map_of (errors s) k"
  using assms by (simp add: newErrors_of_def update_conv' delete_conv' split: option.splits)

lemma submitLoop_truthy:
  assumes "(\<exists>field \<in> set fs. required field \<and> \<not> truthy (map_of fd (name field)) \<and> name field = k)
             \<longrightarrow> truthy (map_of e k)"
  shows "truthy (map_of (snd (submitLoop fs fd (b, e))) k) = truthy (map_of e k)"
  using assms
proof (induction fs arbitrary: b e)
  case Nil
  show ?case by simp
next
  case (Cons f rest)
  show ?case
  proof (cases "required f \<and> \<not> truthy (map_of fd (name f))")
    case False
    with Cons.prems have "(\<exists>field \<in> set rest. required field \<and> \<not> truthy (map_of fd (name field)) \<and> name field = k)
             \<longrightarrow> truthy (map_of e k)"
      by auto
    from Cons.IH [OF this, of b] False show ?thesis
      by auto
  next
    case miss: True
    let ?e = "AList.update (name f) (label f @ '' is required'') e"
    have same: "truthy (map_of ?e k) = truthy (map_of e k)"
    proof (cases "name f = k")
      case True
      with miss Cons.prems have "truthy (map_of e k)"
        by auto
      with True show ?thesis
        by (simp add: update_conv')
    next
      case False
      then show ?thesis
        by (simp add: update_conv')
    qed
    with Cons.prems have "(\<exists>field \<in> set rest. required field \<and> \<not> truthy (map_of fd (name field)) \<and> name field = k)
             \<longrightarrow> truthy (map_of ?e k)"
      by auto
    from Cons.IH [OF this, of False] miss same show ?thesis
      by simp
  qed
qed

lemma catalog_required: "apiResponses formType = Entry fs \<Longrightarrow> 0 < requiredFields fs"
  by (auto simp: apiResponses_def requiredFields_def userInformation_def
      addressInformation_def paymentInformation_def split: if_splits)

lemma catalog_distinct_names: "apiResponses formType = Entry fs \<Longrightarrow> distinct (map name fs)"
  by (auto simp: apiResponses_def userInformation_def
      addressInformation_def paymentInformation_def split: if_splits)

lemma find_field_distinct:
  assumes "distinct (map name fs)" and "field \<in> set fs"
  shows "find_field fs (name field) = Some field"
  using assms unfolding find_field_def by (induction fs) auto

subsection \<open>Invariants of the reachable states\<close>

lemma reachable_keys:
  assumes "reachable s"
  shows "fst ` set (formData s) \<subseteq> name ` set (fields' s) \<and>
         fst ` set (errors s) \<subseteq> name ` set (fields' s)"
  using assms
proof (induction rule: reachable.induct)
  case reachable_initial
  show ?case by (simp add: initial_def)
next
  case (reachable_select s formType s')
  from handleFormTypeChange_cells [OF reachable_select.hyps(2)] reachable_select.IH show ?case
    by (elim disjE conjE) auto
next
  case (reachable_input s n v)
  then have "n \<in> name ` set (fields' s)"
    by simp
  with reachable_input.IH newErrors_of_keys [of s n v] show ?case
    by (simp add: keys_update) blast
next
  case (reachable_submit s)
  show ?case
  proof (cases "all_required_present s")
    case True
    then show ?thesis
      by (simp add: handleSubmit_valid)
  next
    case False
    with reachable_submit.IH show ?thesis
      by (auto simp: handleSubmit_invalid submitLoop_keys)
  qed
qed

lemma reachable_distinct:
  assumes "reachable s"
  shows "distinct (map fst (formData s))"
  using assms
proof (induction rule: reachable.induct)
  case reachable_initial
  show ?case by (simp add: initial_def)
next
  case (reachable_select s formType s')
  from handleFormTypeChange_cells [OF reachable_select.hyps(2)] reachable_select.IH show ?case
    by (elim disjE conjE) auto
next
  case (reachable_input s n v)
  then show ?case
    by (simp add: distinct_update)
next
  case (reachable_submit s)
  then show ?case
    by (cases "all_required_present s") (simp_all add: handleSubmit_valid handleSubmit_invalid)
qed

lemma reachable_error_values:
  assumes "reachable s"
  shows "map_of (errors s) k = Some v \<Longrightarrow> v \<noteq> []"
  using assms
proof (induction arbitrary: k v rule: reachable.induct)
  case reachable_initial
  then show ?case by (simp add: initial_def)
next
  case (reachable_select s formType s')
  from handleFormTypeChange_cells [OF reachable_select.hyps(2)] reachable_select.IH
    reachable_select.prems
  show ?case
    by (elim disjE conjE) auto
next
  case (reachable_input s n w)
  from reachable_input.prems have "map_of (newErrors_of s n w) k = Some v"
    by simp
  with reachable_input.IH show ?case
    by (rule newErrors_of_values)
next
  case (reachable_submit s)
  show ?case
  proof (cases "all_required_present s")
    case True
    with reachable_submit.prems show ?thesis
      by (simp add: handleSubmit_valid)
  next
    case False
    with reachable_submit.prems
    have "map_of (snd (submitLoop (fields' s) (formData s) (True, errors s))) k = Some v"
      by (simp add: handleSubmit_invalid)
    with reachable_submit.IH show ?thesis
      by (rule submitLoop_values)
  qed
qed

lemma reachable_catalog:
  assumes "reachable s"
  shows "fields' s = [] \<or> (\<exists>formType. apiResponses formType = Entry (fields' s))"
  using assms
proof (induction rule: reachable.induct)
  case reachable_initial
  show ?case by (simp add: initial_def)
next
  case (reachable_select s formType s')
  from handleFormTypeChange_cells [OF reachable_select.hyps(2)] reachable_select.IH show ?case
    by (elim disjE conjE) auto
next
  case (reachable_input s n v)
  then show ?case by simp
next
  case (reachable_submit s)
  then show ?case
    by (cases "all_required_present s") (simp_all add: handleSubmit_valid handleSubmit_invalid)
qed

lemma reachable_requiredFields:
  assumes "reachable s" and "fields' s \<noteq> []"
  shows "0 < requiredFields (fields' s)"
  using reachable_catalog [OF assms(1)] assms(2) catalog_required by auto

lemma reachable_distinct_names:
  assumes "reachable s"
  shows "distinct (map name (fields' s))"
  using reachable_catalog [OF assms] catalog_distinct_names by auto

text \<open>A required field whose value was emptied has its error.\<close>

lemma reachable_emptied:
  assumes "reachable s"
  shows "field \<in> set (fields' s) \<Longrightarrow> required field \<Longrightarrow>
         map_of (formData s) (name field) = Some [] \<Longrightarrow> truthy (map_of (errors s) (name field))"
  using assms
proof (induction arbitrary: field rule: reachable.induct)
  case reachable_initial
  then show ?case by (simp add: initial_def)
next
  case (reachable_select s formType s')
  from handleFormTypeChange_cells [OF reachable_select.hyps(2)] reachable_select.IH
    reachable_select.prems
  show ?case
    by (elim disjE conjE) auto
next
  case (reachable_input s n v)
  from reachable_input.prems have field: "field \<in> set (fields' s)"
    by simp
  show ?case
  proof (cases "name field = n")
    case True
    with reachable_input.prems have "v = []"
      by (simp add: update_conv')
    moreover from True find_field_distinct [OF reachable_distinct_names [OF reachable_input.hyps(1)] field]
    have "find_field (fields' s) n = Some field"
      by simp
    ultimately show ?thesis
      using reachable_input.prems(2) True by (simp add: newErrors_of_def update_conv')
  next
    case False
    with reachable_input.prems have "map_of (formData s) (name field) = Some []"
      by (simp add: update_conv')
    with reachable_input.IH [OF field reachable_input.prems(2)] False show ?thesis
      by (simp add: newErrors_of_other)
  qed
next
  case (reachable_submit s)
  show ?case
  proof (cases "all_required_present s")
    case True
    with reachable_submit.prems show ?thesis
      by (simp add: handleSubmit_valid)
  next
    case False
    with reachable_submit.prems have field: "field \<in> set (fields' s)"
      and "\<not> truthy (map_of (formData s) (name field))"
      by (simp_all add: handleSubmit_invalid)
    from submitLoop_entry [OF field reachable_submit.prems(2) this(2), of True "errors s"] False
    show ?thesis
      by (auto simp: handleSubmit_invalid)
  qed
qed

subsection \<open>Counting the completed fields\<close>

lemma validateField_errors: "errors (validateField s n v) = newErrors_of s n v"
  by (simp add: validateField_def Let_def)

lemma find_field_required:
  assumes "find_field fs n = Some field" and "required field"
  shows "0 < requiredFields fs"
proof -
  from assms(1) have "field \<in> set fs"
    by (auto simp: find_field_def find_Some_iff)
  with assms(2) have "field \<in> set (filter required fs)"
    by simp
  then show ?thesis
    unfolding requiredFields_def by (cases "filter required fs") auto
qed

lemma filter_length_mono:
  assumes "\<And>x. x \<in> set xs \<Longrightarrow> P x \<Longrightarrow> Q x"
  shows "length (filter P xs) \<le> length (filter Q xs)"
  using assms by (induction xs) auto

lemma completedFields_fewer_errors:
  assumes "\<And>k. \<not> truthy (map_of e1 k) \<Longrightarrow> \<not> truthy (map_of e2 k)"
  shows "completedFields fd e1 \<le> completedFields fd e2"
  unfolding completedFields_def using assms by (intro filter_length_mono)

lemma completedFields_mono:
  assumes "\<And>k. \<not> truthy (map_of e1 k) \<Longrightarrow> \<not> truthy (map_of e2 k)"
  shows "completedFields fd e1 \<le> completedFields (AList.update n v fd) e2"
proof -
  from assms have "completedFields fd e1 \<le> completedFields fd e2"
    by (rule completedFields_fewer_errors)
  also have "\<dots> \<le> completedFields (AList.update n v fd) e2"
    by (simp add: completedFields_def update_keys)
  finally show ?thesis .
qed

lemma completedFields_bound:
  assumes "distinct (map fst fd)"
    and "\<forall>k \<in> fst ` set fd. \<exists>field \<in> set fs. name field = k \<and> required field"
  shows "completedFields fd e \<le> requiredFields fs"
proof -
  have "completedFields fd e \<le> length (map fst fd)"
    unfolding completedFields_def by (rule length_filter_le)
  also have "\<dots> = card (set (map fst fd))"
    using distinct_card [OF assms(1)] by simp
  also have "\<dots> \<le> card (name ` set (filter required fs))"
  proof (rule card_mono)
    show "finite (name ` set (filter required fs))"
      by simp
    show "set (map fst fd) \<subseteq> name ` set (filter required fs)"
    proof
      fix k assume "k \<in> set (map fst fd)"
      with assms(2) obtain field where "field \<in> set fs" "name field = k" "required field"
        by auto
      then show "k \<in> name ` set (filter required fs)"
        by force
    qed
  qed
  also have "\<dots> \<le> card (set (filter required fs))"
    by (intro card_image_le) simp
  also have "\<dots> \<le> requiredFields fs"
    unfolding requiredFields_def by (rule card_length)
  finally show ?thesis .
qed

lemma keys_of_required:
  assumes "A \<subseteq> name ` set (filter required fs)"
  shows "\<forall>k \<in> A. \<exists>field \<in> set fs. name field = k \<and> required field"
  using assms by auto

lemma completedFields_grows:
  "completedFields fd e \<le> completedFields (AList.update n v fd) e"
  by (rule completedFields_mono)

lemma completedFields_no_entry:
  assumes "\<And>k v. map_of e k = Some v \<Longrightarrow> v \<noteq> []"
  shows "completedFields fd e = length (filter (\<lambda>k. map_of e k = None) (map fst fd))"
proof -
  have "truthy (map_of e k) \<longleftrightarrow> map_of e k \<noteq> None" for k
    using assms [of k] by (auto simp: truthy_iff)
  then show ?thesis
    by (simp add: completedFields_def)
qed

text \<open>
  With distinct names and distinct keys that all name required fields, counting the
  required fields that have an entry and no error is counting the keys that have no
  error.
\<close>

lemma entered_count:
  assumes "distinct (map name fs)" and "distinct (map fst fd)"
    and "fst ` set fd \<subseteq> name ` set (filter required fs)"
  shows "length (filter (\<lambda>field. required field \<and> map_of fd (name field) \<noteq> None \<and>
                                 map_of errs (name field) = None) fs) =
         length (filter (\<lambda>k. map_of errs k = None) (map fst fd))"
proof -
  let ?Q = "\<lambda>k. map_of fd k \<noteq> None \<and> map_of errs k = None"
  let ?names = "map name (filter required fs)"
  let ?keys = "filter (\<lambda>k. map_of errs k = None) (map fst fd)"
  from assms(1) have names: "distinct ?names"
    by (rule distinct_map_filter)
  have 1: "filter (\<lambda>field. required field \<and> map_of fd (name field) \<noteq> None \<and>
                         map_of errs (name field) = None) fs =
        filter (\<lambda>field. ?Q (name field)) (filter required fs)"
    by (induction fs) auto
  have 2: "filter ?Q ?names = map name (filter (\<lambda>field. ?Q (name field)) (filter required fs))"
    by (simp only: filter_map comp_def)
  have "length (filter (\<lambda>field. required field \<and> map_of fd (name field) \<noteq> None \<and>
                         map_of errs (name field) = None) fs) = length (filter ?Q ?names)"
    unfolding 1 2 by (simp only: length_map)
  also have "\<dots> = card (set (filter ?Q ?names))"
    by (rule distinct_card [symmetric]) (rule distinct_filter [OF names])
  also have "set (filter ?Q ?names) = set ?keys"
  proof
    show "set (filter ?Q ?names) \<subseteq> set ?keys"
      by (auto simp: map_of_eq_None_iff)
    show "set ?keys \<subseteq> set (filter ?Q ?names)"
    proof
      fix k assume "k \<in> set ?keys"
      then have k: "k \<in> fst ` set fd" and none: "map_of errs k = None"
        by auto
      from k assms(3) have "k \<in> set ?names"
        by auto
      moreover from k have "map_of fd k \<noteq> None"
        by (simp add: map_of_eq_None_iff)
      ultimately show "k \<in> set (filter ?Q ?names)"
        using none by simp
    qed
  qed
  also have "card (set ?keys) = length ?keys"
    by (rule distinct_card) (rule distinct_filter [OF assms(2)])
  finally show ?thesis .
qed

text \<open>A failed submission does not change the count of completed fields.\<close>

lemma failed_submit_count:
  assumes "reachable s"
  shows "completedFields (formData s) (snd (submitLoop (fields' s) (formData s) (True, errors s)))
           = completedFields (formData s) (errors s)"
proof -
  let ?errs = "snd (submitLoop (fields' s) (formData s) (True, errors s))"
  have "truthy (map_of ?errs k) = truthy (map_of (errors s) k)" if "k \<in> set (map fst (formData s))" for k
  proof (rule submitLoop_truthy, intro impI, elim bexE conjE)
    fix field
    assume field: "field \<in> set (fields' s)" "required field"
      and miss: "\<not> truthy (map_of (formData s) (name field))" and k: "name field = k"
    from that k obtain v where "map_of (formData s) (name field) = Some v"
      using map_of_eq_None_iff [of "formData s" k] by auto
    with miss have "map_of (formData s) (name field) = Some []"
      by simp
    from reachable_emptied [OF assms field this] k show "truthy (map_of (errors s) k)"
      by simp
  qed
  then show ?thesis
    unfolding completedFields_def by (intro arg_cong [where f = length] filter_cong) auto
qed

lemma recomputed_reachable:
  assumes "recomputed s"
  shows "reachable s"
  using assms by (induction rule: recomputed.induct) (auto intro: reachable.intros)

text \<open>
  In a state whose progress is not left over from a successful submission, the progress
  is not above the percentage of the completed fields of that state.
\<close>

lemma recomputed_progress:
  assumes "recomputed s" and "fields' s \<noteq> []"
  shows "\<exists>p. progress s = Num p \<and>
           p \<le> percent (completedFields (formData s) (errors s)) (requiredFields (fields' s))"
  using assms
proof (induction rule: recomputed.induct)
  case recomputed_initial
  then show ?case by (simp add: initial_def)
next
  case (recomputed_select s formType s')
  from handleFormTypeChange_progress [OF recomputed_select.hyps(2)] show ?case
    by (simp add: percent_nonneg)
next
  case (recomputed_input s n v)
  then have "fields' s \<noteq> []"
    by auto
  with recomputed_input.hyps(1) have "0 < requiredFields (fields' s)"
    by (rule reachable_requiredFields)
  then have "progress (handleInputChange s n v) =
      Num (percent (completedFields (formData s) (newErrors_of s n v)) (requiredFields (fields' s)))"
    by (simp add: handleInputChange_progress times_100_divide_lengths)
  with percent_mono [OF completedFields_grows] show ?case
    by simp
next
  case (recomputed_failed s)
  from recomputed_failed.prems recomputed_failed.hyps(2) have "fields' s \<noteq> []"
    by (simp add: handleSubmit_invalid)
  from recomputed_failed.IH [OF this] recomputed_failed.hyps(2)
    failed_submit_count [OF recomputed_reachable [OF recomputed_failed.hyps(1)]]
  show ?case
    by (simp add: handleSubmit_invalid)
qed

subsection \<open>The scenario states, evaluated\<close>

lemma percent_1_3: "percent (Suc 0) (Suc (Suc (Suc 0))) = 2345624805922133 / 70368744177664"
  by code_simp

lemma percent_2_3: "percent (Suc (Suc 0)) (Suc (Suc (Suc 0))) = 2345624805922133 / 35184372088832"
  by code_simp

lemma user_selected_result: "handleFormTypeChange initial ''userInformation'' = Inr user_selected"
  by (simp add: user_selected_def handleFormTypeChange_known apiResponses_def)

lemma user_selected_eq:
  "user_selected =
     \<lparr>fields' = userInformation, formData = [], errors = [], progress = Num 0, message = []\<rparr>"
  by (simp add: user_selected_def handleFormTypeChange_known apiResponses_def)

lemma payment_selected_result:
  "handleFormTypeChange initial ''paymentInformation'' = Inr payment_selected"
  by (simp add: payment_selected_def handleFormTypeChange_known apiResponses_def)

lemma payment_selected_eq:
  "payment_selected =
     \<lparr>fields' = paymentInformation, formData = [], errors = [], progress = Num 0, message = []\<rparr>"
  by (simp add: payment_selected_def handleFormTypeChange_known apiResponses_def)

lemma address_selected_result:
  "handleFormTypeChange initial ''addressInformation'' = Inr address_selected"
  by (simp add: address_selected_def handleFormTypeChange_known apiResponses_def)

lemma address_selected_eq:
  "address_selected =
     \<lparr>fields' = addressInformation, formData = [], errors = [], progress = Num 0, message = []\<rparr>"
  by (simp add: address_selected_def handleFormTypeChange_known apiResponses_def)

lemma first_name_set_eq:
  "first_name_set =
     \<lparr>fields' = userInformation, formData = [(''firstName'', ''Ann'')], errors = [],
      progress = Num 0, message = []\<rparr>"
  by (simp add: first_name_set_def user_selected_eq handleInputChange_def validateField_def
      updateProgress_def newErrors_of_def find_field_def completedFields_def requiredFields_def
      divide_lengths_def userInformation_def)

lemma first_name_changed_eq:
  "handleInputChange first_name_set ''firstName'' ''Anna'' =
     \<lparr>fields' = userInformation, formData = [(''firstName'', ''Anna'')], errors = [],
      progress = Num 50, message = []\<rparr>"
  by (simp add: first_name_set_eq handleInputChange_def validateField_def
      updateProgress_def newErrors_of_def find_field_def completedFields_def requiredFields_def
      divide_lengths_def userInformation_def)

lemma last_name_set_eq:
  "last_name_set =
     \<lparr>fields' = userInformation, formData = [(''firstName'', ''Ann''), (''lastName'', ''Lee'')],
      errors = [], progress = Num 50, message = []\<rparr>"
  by (simp add: last_name_set_def first_name_set_eq handleInputChange_def validateField_def
      updateProgress_def newErrors_of_def find_field_def completedFields_def requiredFields_def
      divide_lengths_def userInformation_def)

lemma age_set_eq:
  "age_set =
     \<lparr>fields' = userInformation,
      formData = [(''firstName'', ''Ann''), (''lastName'', ''Lee''), (''age'', ''30'')],
      errors = [], progress = Num 100, message = []\<rparr>"
  by (simp add: age_set_def last_name_set_eq handleInputChange_def validateField_def
      updateProgress_def newErrors_of_def find_field_def completedFields_def requiredFields_def
      divide_lengths_def userInformation_def)

lemma last_name_set_present: "all_required_present last_name_set"
  by (simp add: all_required_present_def last_name_set_eq userInformation_def)

lemma submitted_eq:
  "handleSubmit last_name_set =
     \<lparr>fields' = userInformation, formData = [], errors = [], progress = Num 50,
      message = ''Form submitted successfully!''\<rparr>"
  using handleSubmit_valid [OF last_name_set_present] by (simp add: last_name_set_eq)

lemma resubmitted_eq:
  "handleInputChange (handleSubmit last_name_set) ''firstName'' ''Ann'' =
     \<lparr>fields' = userInformation, formData = [(''firstName'', ''Ann'')], errors = [],
      progress = Num 0, message = ''Form submitted successfully!''\<rparr>"
  by (simp add: submitted_eq handleInputChange_def validateField_def
      updateProgress_def newErrors_of_def find_field_def completedFields_def requiredFields_def
      divide_lengths_def userInformation_def)

lemma street_set_eq:
  "street_set =
     \<lparr>fields' = addressInformation, formData = [(''street'', ''1 Main St'')], errors = [],
      progress = Num 0, message = []\<rparr>"
  by (simp add: street_set_def address_selected_eq handleInputChange_def validateField_def
      updateProgress_def newErrors_of_def find_field_def completedFields_def requiredFields_def
      times_100_divide_lengths addressInformation_def)

lemma city_set_eq:
  "city_set =
     \<lparr>fields' = addressInformation,
      formData = [(''street'', ''1 Main St''), (''city'', ''Austin'')], errors = [],
      progress = Num (2345624805922133 / 70368744177664), message = []\<rparr>"
  by (simp add: city_set_def street_set_eq handleInputChange_def validateField_def
      updateProgress_def newErrors_of_def find_field_def completedFields_def requiredFields_def
      times_100_divide_lengths percent_1_3 addressInformation_def)

lemma state_set_eq:
  "state_set =
     \<lparr>fields' = addressInformation,
      formData = [(''street'', ''1 Main St''), (''city'', ''Austin''), (''state'', ''Texas'')],
      errors = [], progress = Num (2345624805922133 / 35184372088832), message = []\<rparr>"
  by (simp add: state_set_def city_set_eq handleInputChange_def validateField_def
      updateProgress_def newErrors_of_def find_field_def completedFields_def requiredFields_def
      times_100_divide_lengths percent_2_3 addressInformation_def)

lemma street_emptied_eq:
  "street_emptied =
     \<lparr>fields' = addressInformation,
      formData = [(''street'', []), (''city'', ''Austin''), (''state'', ''Texas'')],
      errors = [(''street'', ''Street is required'')],
      progress = Num (2345624805922133 / 35184372088832), message = []\<rparr>"
  by (simp add: street_emptied_def state_set_eq handleInputChange_def validateField_def
      updateProgress_def newErrors_of_def find_field_def completedFields_def requiredFields_def
      times_100_divide_lengths percent_2_3 addressInformation_def)

lemma reachable_user_selected: "reachable user_selected"
  by (rule reachable_select [OF reachable_initial user_selected_result])

lemma reachable_payment_selected: "reachable payment_selected"
  by (rule reachable_select [OF reachable_initial payment_selected_result])

lemma reachable_first_name_set: "reachable first_name_set"
  unfolding first_name_set_def
  by (rule reachable_input [OF reachable_user_selected])
    (simp add: user_selected_eq userInformation_def)

lemma reachable_last_name_set: "reachable last_name_set"
  unfolding last_name_set_def
  by (rule reachable_input [OF reachable_first_name_set])
    (simp add: first_name_set_eq userInformation_def)

lemma recomputed_first_name_set: "recomputed first_name_set"
  unfolding first_name_set_def
  by (rule recomputed_input [OF reachable_user_selected])
    (simp add: user_selected_eq userInformation_def)

lemma payment_submitted_eq:
  "handleSubmit payment_selected =
     \<lparr>fields' = paymentInformation, formData = [],
      errors = [(''cardNumber'', ''Card Number is required''),
                (''expiryDate'', ''Expiry Date is required''),
                (''cvv'', ''CVV is required''),
                (''cardholderName'', ''Cardholder Name is required'')],
      progress = Num 0, message = ''Please fill out all required fields.''\<rparr>"
  by (simp add: handleSubmit_def payment_selected_eq paymentInformation_def)

lemma payment_selected_missing: "\<not> all_required_present payment_selected"
  by (simp add: all_required_present_def payment_selected_eq paymentInformation_def)

lemma failed_submit_eq:
  "handleSubmit first_name_set =
     \<lparr>fields' = userInformation, formData = [(''firstName'', ''Ann'')],
      errors = [(''lastName'', ''Last Name is required'')],
      progress = Num 0, message = ''Please fill out all required fields.''\<rparr>"
  by (simp add: handleSubmit_def first_name_set_eq userInformation_def)

lemma first_name_set_missing: "\<not> all_required_present first_name_set"
  by (simp add: all_required_present_def first_name_set_eq userInformation_def)

lemma after_failed_submit_eq:
  "handleInputChange (handleSubmit first_name_set) ''lastName'' ''Lee'' =
     \<lparr>fields' = userInformation, formData = [(''firstName'', ''Ann''), (''lastName'', ''Lee'')],
      errors = [], progress = Num 50, message = ''Please fill out all required fields.''\<rparr>"
  by (simp add: failed_submit_eq handleInputChange_def validateField_def
      updateProgress_def newErrors_of_def find_field_def completedFields_def requiredFields_def
      divide_lengths_def userInformation_def)

section \<open>The claims\<close>

text \<open>
  C3: for every form type of the catalog, \<open>handleFormTypeChange\<close> with that type makes the
  field list exactly the catalog's fields of that type, in the catalog's order, and resets
  the form values to empty, the errors to empty, the progress to 0 and the message to
  empty, whatever the state before.
\<close>

theorem handleFormTypeChange_catalog:
  assumes "formType \<in> set formTypes"
  shows "\<exists>fs. apiResponses formType = Entry fs \<and>
           handleFormTypeChange s formType =
             Inr \<lparr>fields' = fs, formData = [], errors = [], progress = Num 0, message = []\<rparr>"
proof -
  from assms obtain fs where "apiResponses formType = Entry fs"
    by (auto simp: formTypes_def apiResponses_def)
  then show ?thesis
    by (simp add: handleFormTypeChange_known)
qed

theorem handleFormTypeChange_catalog_witness:
  "''addressInformation'' \<in> set formTypes \<and>
   handleFormTypeChange last_name_set ''addressInformation'' =
     Inr \<lparr>fields' = addressInformation, formData = [], errors = [], progress = Num 0,
          message = []\<rparr>"
  using handleFormTypeChange_catalog [of "''addressInformation''" last_name_set]
  by (simp add: formTypes_def apiResponses_def)

text \<open>
  C7, as the specification has it, fails. With the empty form type the progress and the
  message are not left in place: after the two changes of the scenario the progress is
  50, and selecting the empty form type makes it 0. And a form type that is not in the
  catalog can still be found by \<open>apiResponses[formType]\<close>: with \<open>constructor\<close>, a member
  of \<open>Object.prototype\<close>, the test of the handler succeeds and the form values are
  emptied.
\<close>

theorem handleFormTypeChange_not_left_in_place:
  "progress last_name_set = Num 50 \<and>
   handleFormTypeChange last_name_set [] =
     Inr \<lparr>fields' = userInformation,
          formData = [(''firstName'', ''Ann''), (''lastName'', ''Lee'')], errors = [],
          progress = Num 0, message = []\<rparr> \<and>
   handleFormTypeChange last_name_set ''constructor'' =
     Inr \<lparr>fields' = userInformation, formData = [], errors = [], progress = Num 0,
          message = []\<rparr>"
  by (simp add: handleFormTypeChange_unknown handleFormTypeChange_constructor apiResponses_def
      last_name_set_eq)

text \<open>
  C7, amended: with the empty form type, or with a form type for which
  \<open>apiResponses[formType]\<close> is \<open>undefined\<close> (one that is neither a key of the catalog nor
  the name of a member of \<open>Object.prototype\<close>), \<open>handleFormTypeChange\<close> leaves the field
  list, the form values and the errors in place, and resets the progress to 0 and the
  message to empty.
\<close>

theorem handleFormTypeChange_empty_or_unknown:
  assumes "formType = [] \<or> apiResponses formType = Undefined"
  shows "handleFormTypeChange s formType = Inr (s\<lparr>message := [], progress := Num 0\<rparr>)"
  using assms by (rule handleFormTypeChange_unknown)

theorem handleFormTypeChange_empty_or_unknown_witness:
  "handleFormTypeChange last_name_set [] =
     Inr \<lparr>fields' = userInformation,
          formData = [(''firstName'', ''Ann''), (''lastName'', ''Lee'')], errors = [],
          progress = Num 0, message = []\<rparr> \<and>
   apiResponses ''bogus'' = Undefined \<and>
   handleFormTypeChange last_name_set ''bogus'' =
     Inr \<lparr>fields' = userInformation,
          formData = [(''firstName'', ''Ann''), (''lastName'', ''Lee'')], errors = [],
          progress = Num 0, message = []\<rparr>"
proof -
  have unknown: "apiResponses ''bogus'' = Undefined"
    by (simp add: apiResponses_def inherited_names_def)
  from handleFormTypeChange_empty_or_unknown [of "[]" last_name_set]
    handleFormTypeChange_empty_or_unknown [of "''bogus''" last_name_set] unknown
  show ?thesis
    by (simp add: last_name_set_eq)
qed

text \<open>
  C9: in every state in which all required fields of the active field-set have non-empty
  entries in the form values, \<open>handleSubmit\<close> leaves the progress as it is; it sets the
  success message and empties the form values and the errors.
\<close>

theorem handleSubmit_keeps_progress:
  assumes "all_required_present s"
  shows "progress (handleSubmit s) = progress s \<and>
         message (handleSubmit s) = ''Form submitted successfully!'' \<and>
         formData (handleSubmit s) = [] \<and> errors (handleSubmit s) = [] \<and>
         fields' (handleSubmit s) = fields' s"
  by (simp add: handleSubmit_valid [OF assms])

theorem handleSubmit_keeps_progress_witness:
  "all_required_present last_name_set \<and>
   progress (handleSubmit last_name_set) = Num 50 \<and>
   message (handleSubmit last_name_set) = ''Form submitted successfully!'' \<and>
   formData (handleSubmit last_name_set) = [] \<and> errors (handleSubmit last_name_set) = []"
  using handleSubmit_keeps_progress [OF last_name_set_present] last_name_set_present
  by (simp add: last_name_set_eq)

text \<open>
  C10: every field-set of the catalog has at least one required field; so in every
  reachable state whose field list has a field, the count of required fields, the divisor
  of \<open>updateProgress\<close>, is not zero, and the progress an input change computes is a finite
  number (neither \<open>NaN\<close> nor \<open>Infinity\<close>).
\<close>

theorem catalog_divisor_nonzero:
  "(apiResponses formType = Entry fs \<longrightarrow> 0 < requiredFields fs) \<and>
   (reachable s \<longrightarrow> n \<in> set (map name (fields' s)) \<longrightarrow>
      0 < requiredFields (fields' s) \<and> (\<exists>q. progress (handleInputChange s n v) = Num q))"
proof (intro conjI impI)
  assume "apiResponses formType = Entry fs"
  then show "0 < requiredFields fs"
    by (rule catalog_required)
next
  assume "reachable s" and "n \<in> set (map name (fields' s))"
  then show "0 < requiredFields (fields' s)"
    by (auto intro: reachable_requiredFields)
  then show "\<exists>q. progress (handleInputChange s n v) = Num q"
    by (simp add: handleInputChange_progress times_100_divide_lengths)
qed

theorem catalog_divisor_nonzero_witness:
  "apiResponses ''paymentInformation'' = Entry paymentInformation \<and>
   0 < requiredFields paymentInformation \<and>
   reachable payment_selected \<and> ''cvv'' \<in> set (map name (fields' payment_selected)) \<and>
   0 < requiredFields (fields' payment_selected) \<and>
   (\<exists>q. progress (handleInputChange payment_selected ''cvv'' ''123'') = Num q)"
  using catalog_divisor_nonzero
    [of "''paymentInformation''" paymentInformation payment_selected "''cvv''" "''123''"]
    reachable_payment_selected
  by (simp add: apiResponses_def payment_selected_eq paymentInformation_def)

text \<open>
  C6: in every state reachable from the initial one by \<open>handleFormTypeChange\<close>,
  \<open>handleInputChange\<close> on a name of the active field-set and \<open>handleSubmit\<close>, the keys of
  the form values and the keys of the errors are names of fields of the active field-set.
\<close>

theorem keys_within_field_names:
  assumes "reachable s"
  shows "fst ` set (formData s) \<subseteq> name ` set (fields' s) \<and>
         fst ` set (errors s) \<subseteq> name ` set (fields' s)"
  using assms by (rule reachable_keys)

theorem keys_within_field_names_witness:
  "reachable last_name_set \<and>
   fst ` set (formData last_name_set) \<subseteq> name ` set (fields' last_name_set) \<and>
   fst ` set (errors last_name_set) \<subseteq> name ` set (fields' last_name_set)"
  using keys_within_field_names [OF reachable_last_name_set] reachable_last_name_set
  by simp

text \<open>
  C4: when the descriptor that \<open>validateField\<close> finds for the name is required and the
  value is empty, the errors get the entry \<open>"<label> is required"\<close> for the name, with
  that field's label; when the value is not empty, and always when the descriptor is not
  required, the errors have no entry for the name afterwards.
\<close>

theorem validateField_entry:
  assumes "find_field (fields' s) n = Some field"
  shows "map_of (errors (validateField s n v)) n =
           (if required field \<and> v = [] then Some (label field @ '' is required'') else None)"
  using assms by (simp add: validateField_errors newErrors_of_def update_conv' delete_conv')

theorem validateField_entry_witness:
  "find_field (fields' user_selected) ''lastName'' =
     Some \<lparr>name = ''lastName'', ftype = ''text'', label = ''Last Name'', required = True,
           options = None\<rparr> \<and>
   map_of (errors (validateField user_selected ''lastName'' [])) ''lastName'' =
     Some ''Last Name is required'' \<and>
   map_of (errors (validateField user_selected ''lastName'' ''Lee'')) ''lastName'' = None"
proof -
  have found: "find_field (fields' user_selected) ''lastName'' =
     Some \<lparr>name = ''lastName'', ftype = ''text'', label = ''Last Name'', required = True,
           options = None\<rparr>"
    by (simp add: user_selected_eq userInformation_def find_field_def)
  from validateField_entry [OF found, of "[]"] validateField_entry [OF found, of "''Lee''"] found
  show ?thesis
    by simp
qed

text \<open>
  C2: \<open>handleSubmit\<close> succeeds, that is sets the success message and empties the form
  values and the errors, if and only if every required field of the active field-set has
  a non-empty entry in the form values; and when a required field has no entry or an empty
  one, it leaves the form values as they are, sets the message of failure, and the errors
  get an entry \<open>"<label> is required"\<close> for the name of every such field (with the label
  of a field of that name).
\<close>

theorem handleSubmit_succeeds_iff:
  "((message (handleSubmit s) = ''Form submitted successfully!'' \<and>
     formData (handleSubmit s) = [] \<and> errors (handleSubmit s) = [])
    \<longleftrightarrow> all_required_present s) \<and>
   (\<not> all_required_present s \<longrightarrow>
      formData (handleSubmit s) = formData s \<and>
      message (handleSubmit s) = ''Please fill out all required fields.'' \<and>
      (\<forall>field \<in> set (fields' s).
         required field \<and> map_of (formData s) (name field) \<in> {None, Some []} \<longrightarrow>
           (\<exists>g \<in> set (fields' s). name g = name field \<and>
              map_of (errors (handleSubmit s)) (name field) = Some (label g @ '' is required''))))"
proof (cases "all_required_present s")
  case True
  then show ?thesis
    by (simp add: handleSubmit_valid)
next
  case False
  have "\<exists>g \<in> set (fields' s). name g = name field \<and>
          map_of (errors (handleSubmit s)) (name field) = Some (label g @ '' is required'')"
    if "field \<in> set (fields' s)" and "required field"
      and "map_of (formData s) (name field) \<in> {None, Some []}" for field
  proof -
    from that(3) have "\<not> truthy (map_of (formData s) (name field))"
      by auto
    from submitLoop_entry [OF that(1,2) this, of True "errors s"] False show ?thesis
      by (simp add: handleSubmit_invalid)
  qed
  with False show ?thesis
    by (simp add: handleSubmit_invalid)
qed

theorem handleSubmit_succeeds_iff_witness:
  "\<not> all_required_present payment_selected \<and>
   formData (handleSubmit payment_selected) = formData payment_selected \<and>
   message (handleSubmit payment_selected) = ''Please fill out all required fields.'' \<and>
   map_of (errors (handleSubmit payment_selected)) ''cvv'' = Some ''CVV is required'' \<and>
   all_required_present last_name_set \<and>
   message (handleSubmit last_name_set) = ''Form submitted successfully!'' \<and>
   formData (handleSubmit last_name_set) = [] \<and> errors (handleSubmit last_name_set) = []"
  using handleSubmit_succeeds_iff [of payment_selected] handleSubmit_succeeds_iff [of last_name_set]
    payment_selected_missing last_name_set_present payment_submitted_eq submitted_eq
  by (simp add: payment_selected_eq)

text \<open>
  C5, evaluated on the code. The scenario of the specification: the selection of
  userInformation gives the field list firstName, lastName, age; after the change of
  firstName to Ann the errors have no entry for firstName, and the progress is 0, where
  the specification has 50; after the change of lastName to Lee the progress is 50, where
  the specification has 100; after the submission the message is the success message and
  the form values and the errors are empty. \<open>updateProgress\<close> counts the keys of the
  \<open>formData\<close> of the render, which does not have the entry of the change that is being
  handled.
\<close>

theorem scenario_userInformation:
  "handleFormTypeChange initial ''userInformation'' = Inr user_selected \<and>
   map name (fields' user_selected) = [''firstName'', ''lastName'', ''age''] \<and>
   map_of (errors first_name_set) ''firstName'' = None \<and>
   progress first_name_set = Num 0 \<and>
   progress last_name_set = Num 50 \<and>
   message (handleSubmit last_name_set) = ''Form submitted successfully!'' \<and>
   formData (handleSubmit last_name_set) = [] \<and>
   errors (handleSubmit last_name_set) = []"
  using submitted_eq user_selected_result
  by (simp add: user_selected_eq first_name_set_eq last_name_set_eq userInformation_def)

text \<open>
  C1, as the specification has it, fails. After firstName is entered, a second change of
  firstName makes the progress 50: \<open>updateProgress\<close> counts the entered fields that have
  no error, where the formula of the specification counts lastName, which was never
  entered and has no error, too, and gives 100. And where the two counts agree the value
  is the one of the doubles: on the address form with city and state entered and the
  street emptied, 2 of 3 required fields have no error, and the progress is the double
  66.66666666666666, not 200 / 3.
\<close>

theorem progress_not_spec_formula:
  "progress (handleInputChange first_name_set ''firstName'' ''Anna'') = Num 50 \<and>
   spec_progress (fields' (handleInputChange first_name_set ''firstName'' ''Anna''))
     (errors (handleInputChange first_name_set ''firstName'' ''Anna'')) = 100 \<and>
   progress street_emptied = Num (2345624805922133 / 35184372088832) \<and>
   spec_progress (fields' street_emptied) (errors street_emptied) = 200 / 3"
  by (simp add: first_name_changed_eq street_emptied_eq spec_progress_def userInformation_def
      addressInformation_def)

text \<open>
  C1, amended: whenever the progress is recomputed after \<open>validateField\<close> runs on a change
  of a field that already has an entry in the form values, in a state in which every
  entry of the form values belongs to a required field, the progress is the count of the
  required fields of the active field-set that have an entry in the form values and no
  entry in the errors, divided by the count of required fields and multiplied by 100, as
  doubles; this value lies between 0 and 100.
\<close>

theorem progress_of_entered_fields:
  assumes "reachable s" and "n \<in> fst ` set (formData s)"
    and "fst ` set (formData s) \<subseteq> name ` set (filter required (fields' s))"
  shows "progress (handleInputChange s n v) =
           entered_progress (fields' (handleInputChange s n v))
             (formData (handleInputChange s n v)) (errors (handleInputChange s n v)) \<and>
         (\<exists>q. progress (handleInputChange s n v) = Num q \<and> 0 \<le> q \<and> q \<le> 100)"
proof -
  let ?s' = "handleInputChange s n v"
  let ?c = "completedFields (formData s) (newErrors_of s n v)"
  let ?r = "requiredFields (fields' s)"
  from reachable_keys [OF assms(1)] assms(2) have n: "n \<in> set (map name (fields' s))"
    by auto
  with assms(1) have r': "reachable ?s'"
    by (rule reachable_input)
  from n have "fields' s \<noteq> []"
    by auto
  with assms(1) have pos: "0 < ?r"
    by (rule reachable_requiredFields)
  from assms(2) have keys: "map fst (formData ?s') = map fst (formData s)"
    by (simp add: update_keys)
  from pos have prog: "progress ?s' = Num (percent ?c ?r)"
    by (simp add: handleInputChange_progress times_100_divide_lengths)
  have "map_of (newErrors_of s n v) k = Some w \<Longrightarrow> w \<noteq> []" for k w
    using reachable_error_values [OF r', of k w] by simp
  then have "?c = length (filter (\<lambda>k. map_of (newErrors_of s n v) k = None) (map fst (formData s)))"
    by (rule completedFields_no_entry)
  also have "\<dots> = length (filter (\<lambda>field. required field \<and> map_of (formData ?s') (name field) \<noteq> None \<and>
                                 map_of (newErrors_of s n v) (name field) = None) (fields' s))"
  proof (rule entered_count [symmetric, of "fields' s" "formData ?s'", unfolded keys])
    show "distinct (map name (fields' s))"
      using assms(1) by (rule reachable_distinct_names)
    show "distinct (map fst (formData s))"
      using assms(1) by (rule reachable_distinct)
    from assms(2,3) show "fst ` set (formData ?s') \<subseteq> name ` set (filter required (fields' s))"
      by (auto simp: keys_update)
  qed
  finally have "entered_progress (fields' ?s') (formData ?s') (errors ?s') = Num (percent ?c ?r)"
    using pos by (simp add: entered_progress_def times_100_divide_lengths requiredFields_def)
  moreover have "?c \<le> ?r"
    using reachable_distinct [OF assms(1)] keys_of_required [OF assms(3)]
    by (rule completedFields_bound)
  then have "percent ?c ?r \<le> 100"
    using pos by (rule percent_le_100)
  ultimately show ?thesis
    using prog percent_nonneg [of ?c ?r] by simp
qed

theorem progress_of_entered_fields_witness:
  "reachable first_name_set \<and> ''firstName'' \<in> fst ` set (formData first_name_set) \<and>
   fst ` set (formData first_name_set) \<subseteq> name ` set (filter required (fields' first_name_set)) \<and>
   progress (handleInputChange first_name_set ''firstName'' ''Anna'') =
     entered_progress (fields' (handleInputChange first_name_set ''firstName'' ''Anna''))
       (formData (handleInputChange first_name_set ''firstName'' ''Anna''))
       (errors (handleInputChange first_name_set ''firstName'' ''Anna'')) \<and>
   progress (handleInputChange first_name_set ''firstName'' ''Anna'') = Num 50"
proof -
  have entered: "''firstName'' \<in> fst ` set (formData first_name_set)"
    by (simp add: first_name_set_eq)
  have named: "fst ` set (formData first_name_set)
      \<subseteq> name ` set (filter required (fields' first_name_set))"
    by (simp add: first_name_set_eq userInformation_def)
  have "progress (handleInputChange first_name_set ''firstName'' ''Anna'') = Num 50"
    by (simp add: first_name_changed_eq)
  with progress_of_entered_fields [OF reachable_first_name_set entered named, of "''Anna''"]
    reachable_first_name_set entered named
  show ?thesis
    by blast
qed

text \<open>
  C8, as the specification has it, fails. After the successful submission of the scenario
  the form values are empty and the progress is still 50; the change of the required field
  firstName from no value to Ann then makes the progress 0.
\<close>

theorem progress_decreases_after_submit:
  "map_of (formData (handleSubmit last_name_set)) ''firstName'' = None \<and>
   progress (handleSubmit last_name_set) = Num 50 \<and>
   progress (handleInputChange (handleSubmit last_name_set) ''firstName'' ''Ann'') = Num 0"
  using resubmitted_eq submitted_eq by simp

text \<open>
  C8, amended: in every reachable state whose progress is not left over from a successful
  submission (the initial state, a state that a selection or an input change has led to,
  and any state that failed submissions have led to from there), a change that gives a
  required field of the active field-set a non-empty value never makes the progress less
  than it was; both are finite numbers.
\<close>

theorem progress_never_decreases:
  assumes "recomputed s" and "find_field (fields' s) n = Some field" and "required field"
    and "v \<noteq> []"
  shows "\<exists>p q. progress s = Num p \<and> progress (handleInputChange s n v) = Num q \<and> p \<le> q"
proof -
  let ?r = "requiredFields (fields' s)"
  from assms(2,3) have pos: "0 < ?r"
    by (rule find_field_required)
  then have "fields' s \<noteq> []"
    by (auto simp: requiredFields_def)
  from recomputed_progress [OF assms(1) this] obtain p
    where p: "progress s = Num p" "p \<le> percent (completedFields (formData s) (errors s)) ?r"
    by blast
  from assms(2-4) have new: "newErrors_of s n v = AList.delete n (errors s)"
    by (simp add: newErrors_of_def)
  have "completedFields (formData s) (errors s) \<le> completedFields (formData s) (AList.delete n (errors s))"
    by (rule completedFields_fewer_errors) (simp add: delete_conv')
  from percent_mono [OF this, of ?r] p(2)
  have "p \<le> percent (completedFields (formData s) (AList.delete n (errors s))) ?r"
    by simp
  with p(1) pos new show ?thesis
    by (simp add: handleInputChange_progress times_100_divide_lengths)
qed

theorem progress_never_decreases_witness:
  "recomputed (handleSubmit first_name_set) \<and>
   find_field (fields' (handleSubmit first_name_set)) ''lastName'' =
     Some \<lparr>name = ''lastName'', ftype = ''text'', label = ''Last Name'', required = True,
           options = None\<rparr> \<and>
   progress (handleSubmit first_name_set) = Num 0 \<and>
   progress (handleInputChange (handleSubmit first_name_set) ''lastName'' ''Lee'') = Num 50"
proof -
  have state: "recomputed (handleSubmit first_name_set)"
    by (rule recomputed_failed [OF recomputed_first_name_set first_name_set_missing])
  have found: "find_field (fields' (handleSubmit first_name_set)) ''lastName'' =
     Some \<lparr>name = ''lastName'', ftype = ''text'', label = ''Last Name'', required = True,
           options = None\<rparr>"
    by (simp add: failed_submit_eq userInformation_def find_field_def)
  have computed: "progress (handleSubmit first_name_set) = Num 0"
    "progress (handleInputChange (handleSubmit first_name_set) ''lastName'' ''Lee'') = Num 50"
    by (simp add: failed_submit_eq) (simp add: after_failed_submit_eq)
  from progress_never_decreases [OF state found, of "''Lee''"] state found computed
  show ?thesis
    by simp
qed

end
